theory Spec2Isabelle
  imports Main "HOL-Library.Word" "HOL-Library.Sublist" "HOL-Library.Countable"
begin

section \<open>Lua values and tables\<close>

text \<open>
  The codec works on gopher-lua values. \<open>LValue\<close> is gopher-lua's interface of the
  same name with its nine dynamic kinds; \<open>Type\<close> is its \<open>Type()\<close> method. A number is a
  float64, kept as its 64 bits (the encoder never computes with it, it only hands it to
  \<open>fmt\<close>). Functions, userdata, threads and channels are opaque to the codec and are kept
  as bare identities. A table value is a pointer \<open>*lua.LTable\<close>: the type parameter
  \<open>'a\<close> is the type of table identities, and the tables themselves live in a heap.
\<close>

datatype LValueType =
  LTNil | LTBool | LTNumber | LTString | LTFunction | LTUserData | LTThread | LTTable | LTChannel

datatype 'a LValue =
  LNil
| LBool bool
| LNumber "64 word"
| LString string
| LFunction nat
| LUserData nat
| LState nat
| LTable 'a
| LChannel nat

fun Type :: "'a LValue \<Rightarrow> LValueType" where
  "Type LNil = LTNil"
| "Type (LBool b) = LTBool"
| "Type (LNumber n) = LTNumber"
| "Type (LString s) = LTString"
| "Type (LFunction f) = LTFunction"
| "Type (LUserData u) = LTUserData"
| "Type (LState t) = LTThread"
| "Type (LTable t) = LTTable"
| "Type (LChannel c) = LTChannel"

text \<open>
  The codec reads a table through two methods only: \<open>ForEach\<close>, which calls a function on
  every entry in turn, and \<open>RawGetString\<close>. A table is therefore modelled by the sequence
  of key/value pairs in the order \<open>ForEach\<close> presents them (gopher-lua yields the array
  part, then the string keys, then the other keys, the last two in Go's map order).
  \<open>RawGetString\<close> answers \<open>LNil\<close> for a key the table does not hold.
\<close>

type_synonym 'a entries = "('a LValue \<times> 'a LValue) list"

type_synonym 'a heap = "'a \<Rightarrow> 'a entries"

definition RawGetString :: "'a entries \<Rightarrow> string \<Rightarrow> 'a LValue" where
  "RawGetString tb key = (case map_of tb (LString key) of None \<Rightarrow> LNil | Some v \<Rightarrow> v)"

section \<open>The formatting library\<close>

text \<open>
  \<open>stringPack\<close> writes strings with \<open>fmt.Sprintf("%q", s)\<close> and numbers with
  \<open>fmt.Sprintf("%v", n)\<close>. Both belong to Go's library, not to this package, so the
  encoder takes them as parameters: \<open>Sprintf_q\<close> and \<open>Sprintf_v\<close>.
\<close>

record fmt =
  Sprintf_q :: "string \<Rightarrow> string"
  Sprintf_v :: "64 word \<Rightarrow> string"

section \<open>Encoding: marshal.go\<close>

text \<open>
  The errors \<open>stringPack\<close> builds with \<open>fmt.Errorf\<close>, in source order:
  "circular reference detected in table", "invalid key type: ...",
  "error packing table value for key k: %w" (wrapping the nested error) and
  "unsupported value type %T for key k".
\<close>

datatype error =
  CircularReference
| InvalidKeyType
| PackingTableValue string error
| UnsupportedValueType LValueType string

text \<open>The first switch of the callback: the key's literal, or no literal for an invalid key.\<close>

fun keyLiteral :: "fmt \<Rightarrow> 'a LValue \<Rightarrow> string option" where
  "keyLiteral F (LString s) = Some (''['' @ Sprintf_q F s @ '']'')"
| "keyLiteral F (LNumber n) = Some (''['' @ Sprintf_v F n @ '']'')"
| "keyLiteral F key = None"

text \<open>
  The function passed to \<open>ForEach\<close>. Its state is the pair of the captured variables
  \<open>gerr\<close> and \<open>b\<close> (the string builder). \<open>pack\<close> stands for the recursive call
  \<open>stringPack(tbl, true, visited)\<close>. A \<open>return\<close> inside the callback ends the callback
  for this entry only: \<open>ForEach\<close> goes on to the next entry, and the callback does not
  look at \<open>gerr\<close> before it starts.
\<close>

fun packEntry ::
  "fmt \<Rightarrow> 'a heap \<Rightarrow> ('a \<Rightarrow> error + string) \<Rightarrow> 'a LValue \<times> 'a LValue \<Rightarrow>
   error option \<times> string \<Rightarrow> error option \<times> string" where
  \<open>packEntry F h pack (key, value) (gerr, b) =
     (case keyLiteral F key of
        None \<Rightarrow> (Some InvalidKeyType, b)
      | Some k \<Rightarrow>
          (case value of
             LTable tbl \<Rightarrow>
               if Type (RawGetString (h tbl) ''is'') = LTFunction
               then (gerr, b @ k @ ''='' @ ''"MANUAL_REPLACE"'' @ '','')
               else (case pack tbl of
                       Inl err \<Rightarrow> (Some (PackingTableValue k err), b)
                     | Inr v \<Rightarrow> (gerr, b @ k @ ''='' @ v @ '',''))
           | LString s \<Rightarrow> (gerr, b @ k @ ''='' @ Sprintf_q F s @ '','')
           | LBool x \<Rightarrow> (gerr, b @ k @ ''='' @ (if x then ''true'' else ''false'') @ '','')
           | LNumber n \<Rightarrow> (gerr, b @ k @ ''='' @ Sprintf_v F n @ '','')
           | _ \<Rightarrow> (Some (UnsupportedValueType (Type value) k), b)))\<close>

text \<open>
  \<open>stringPack\<close> itself. \<open>visited\<close> is the Go map used as a set. The function adds
  \<open>data\<close> on entry and the deferred \<open>delete\<close> removes it on every exit taken after
  that, so a call leaves the map as it found it and every nested call sees exactly the
  caller's set with \<open>data\<close> added: the model passes that set down. The heap holds
  finitely many tables, which is what makes the descent end.
\<close>

function stringPack ::
  "fmt \<Rightarrow> ('a::finite) heap \<Rightarrow> 'a \<Rightarrow> bool \<Rightarrow> 'a set \<Rightarrow> error + string" where
  "stringPack F h data recursive visited =
     (if data \<in> visited then Inl CircularReference
      else
        (case fold (packEntry F h (\<lambda>tbl. stringPack F h tbl True (insert data visited)))
                (h data) (None, (if recursive then [] else ''return '') @ ''{'') of
           (Some gerr, b) \<Rightarrow> Inl gerr
         | (None, b) \<Rightarrow> Inr (b @ ''}'')))"
  by pat_completeness auto
termination
proof (relation "measure (\<lambda>(F, h, data, recursive, visited). card (- visited))")
  show "wf (measure (\<lambda>(F, h, data, recursive, visited). card (- visited)))"
    by simp
next
  fix F :: fmt and h :: "'a heap" and data :: 'a and recursive :: bool
    and visited :: "'a set" and tbl :: 'a
  assume "data \<notin> visited"
  then have "- insert data visited \<subset> - visited"
    by auto
  then have "card (- insert data visited) < card (- visited)"
    by (intro psubset_card_mono) simp_all
  then show "((F, h, tbl, True, insert data visited), (F, h, data, recursive, visited))
      \<in> measure (\<lambda>(F, h, data, recursive, visited). card (- visited))"
    by simp
qed

declare stringPack.simps [simp del]

text \<open>
  The same function with the map written out as the source has it: \<open>stringPackM\<close>
  takes the map and returns it with its result, sets \<open>visited[data]\<close> before the loop,
  hands the map from entry to entry and through every nested call, and deletes \<open>data\<close>
  on the way out. It is bounded by a nesting depth, \<open>None\<close> meaning the depth was not
  enough. It returns what \<open>stringPack\<close> returns and the map it was given, and it returns
  at every depth above the number of tables not yet visited (lemmas
  \<open>stringPackM_stringPack\<close> and \<open>stringPackM_returns\<close>), so the statements below are
  about \<open>stringPack\<close>.
\<close>

fun packEntryM ::
  "fmt \<Rightarrow> 'a heap \<Rightarrow> ('a \<Rightarrow> 'a set \<Rightarrow> ((error + string) \<times> 'a set) option) \<Rightarrow>
   'a LValue \<times> 'a LValue \<Rightarrow>
   (error option \<times> string \<times> 'a set) option \<Rightarrow> (error option \<times> string \<times> 'a set) option" where
  \<open>packEntryM F h pack (key, value) None = None\<close>
| \<open>packEntryM F h pack (key, value) (Some (gerr, b, visited)) =
     (case keyLiteral F key of
        None \<Rightarrow> Some (Some InvalidKeyType, b, visited)
      | Some k \<Rightarrow>
          (case value of
             LTable tbl \<Rightarrow>
               if Type (RawGetString (h tbl) ''is'') = LTFunction
               then Some (gerr, b @ k @ ''='' @ ''"MANUAL_REPLACE"'' @ '','', visited)
               else (case pack tbl visited of
                       None \<Rightarrow> None
                     | Some (Inl err, visited') \<Rightarrow> Some (Some (PackingTableValue k err), b, visited')
                     | Some (Inr v, visited') \<Rightarrow> Some (gerr, b @ k @ ''='' @ v @ '','', visited'))
           | LString s \<Rightarrow> Some (gerr, b @ k @ ''='' @ Sprintf_q F s @ '','', visited)
           | LBool x \<Rightarrow>
               Some (gerr, b @ k @ ''='' @ (if x then ''true'' else ''false'') @ '','', visited)
           | LNumber n \<Rightarrow> Some (gerr, b @ k @ ''='' @ Sprintf_v F n @ '','', visited)
           | _ \<Rightarrow> Some (Some (UnsupportedValueType (Type value) k), b, visited)))\<close>

fun stringPackM ::
  "nat \<Rightarrow> fmt \<Rightarrow> 'a heap \<Rightarrow> 'a \<Rightarrow> bool \<Rightarrow> 'a set \<Rightarrow> ((error + string) \<times> 'a set) option" where
  "stringPackM 0 F h data recursive visited = None"
| "stringPackM (Suc depth) F h data recursive visited =
     (if data \<in> visited then Some (Inl CircularReference, visited)
      else
        (case fold (packEntryM F h (\<lambda>tbl visited. stringPackM depth F h tbl True visited))
                (h data)
                (Some (None, (if recursive then [] else ''return '') @ ''{'', insert data visited)) of
           None \<Rightarrow> None
         | Some (Some gerr, b, visited') \<Rightarrow> Some (Inl gerr, visited' - {data})
         | Some (None, b, visited') \<Rightarrow> Some (Inr (b @ ''}''), visited' - {data})))"


text \<open>
  \<open>compress/flate\<close> is a parameter too. \<open>'o\<close> is the state of the \<open>io.Writer\<close> the
  caller hands in, \<open>'w\<close> the state of the flate writer wrapped around it and \<open>'x\<close> the
  errors of the library. \<open>NewWriter\<close> is \<open>flate.NewWriter(out, flate.BestSpeed)\<close>, whose
  error the source drops; \<open>Close\<close> is the deferred \<open>zw.Close()\<close>, whose error is dropped
  as well, and gives the underlying writer back.
\<close>

record ('o, 'w, 'x) flate =
  NewWriter :: "'o \<Rightarrow> 'w"
  Write :: "string \<Rightarrow> 'w \<Rightarrow> 'x option \<times> 'w"
  Flush :: "'w \<Rightarrow> 'x option \<times> 'w"
  Close :: "'w \<Rightarrow> 'o"

text \<open>
  \<open>MarshalWrite\<close> returns a Go \<open>error\<close>: either the one \<open>stringPack\<close> built or one of
  the flate writer. The model keeps the two apart by a tag.
\<close>

datatype 'x encode_error = PackError error | WriteError 'x

definition MarshalWrite ::
  "('o, 'w, 'x) flate \<Rightarrow> fmt \<Rightarrow> ('a::finite) heap \<Rightarrow> 'o \<Rightarrow> 'a \<Rightarrow> 'x encode_error option \<times> 'o" where
  "MarshalWrite Z F h out inp =
     (let zw = NewWriter Z out in
      case stringPack F h inp False {} of
        Inl err \<Rightarrow> (Some (PackError err), Close Z zw)
      | Inr data \<Rightarrow>
          (case Write Z data zw of
             (Some err, zw') \<Rightarrow> (Some (WriteError err), Close Z zw')
           | (None, zw') \<Rightarrow>
               (case Flush Z zw' of (r, zw'') \<Rightarrow> (map_option WriteError r, Close Z zw''))))"

text \<open>\<open>Marshal\<close> runs \<open>MarshalWrite\<close> on an empty \<open>bytes.Buffer\<close> and returns its bytes.\<close>

definition Marshal ::
  "(string, 'w, 'x) flate \<Rightarrow> fmt \<Rightarrow> ('a::finite) heap \<Rightarrow> 'a \<Rightarrow> string \<times> 'x encode_error option" where
  "Marshal Z F h inp = (case MarshalWrite Z F h [] inp of (err, buf) \<Rightarrow> (buf, err))"

section \<open>Encoding: the Writer\<close>

text \<open>
  The second \<open>stringPack\<close> of the sources, the one \<open>Writer.Write\<close> calls (named
  \<open>stringPackW\<close> here). Its callback starts with \<open>if firstError != nil { return }\<close>, and
  it keeps no set of visited tables. Nothing bounds its descent, so the model counts the
  nesting depth it is allowed: \<open>None\<close> means that depth was not enough. A callback state
  of \<open>None\<close> means a nested call did not return.
\<close>

fun packEntryW ::
  "fmt \<Rightarrow> 'a heap \<Rightarrow> ('a \<Rightarrow> (error + string) option) \<Rightarrow> 'a LValue \<times> 'a LValue \<Rightarrow>
   (error option \<times> string) option \<Rightarrow> (error option \<times> string) option" where
  \<open>packEntryW F h pack (key, value) None = None\<close>
| \<open>packEntryW F h pack (key, value) (Some (firstError, b)) =
     (if firstError \<noteq> None then Some (firstError, b)
      else
        (case keyLiteral F key of
           None \<Rightarrow> Some (Some InvalidKeyType, b)
         | Some k \<Rightarrow>
             (case value of
                LTable tbl \<Rightarrow>
                  if Type (RawGetString (h tbl) ''is'') = LTFunction
                  then Some (firstError, b @ k @ ''='' @ ''"MANUAL_REPLACE"'' @ '','')
                  else (case pack tbl of
                          None \<Rightarrow> None
                        | Some (Inl err) \<Rightarrow> Some (Some (PackingTableValue k err), b)
                        | Some (Inr v) \<Rightarrow> Some (firstError, b @ k @ ''='' @ v @ '',''))
              | LString s \<Rightarrow> Some (firstError, b @ k @ ''='' @ Sprintf_q F s @ '','')
              | LBool x \<Rightarrow>
                  Some (firstError, b @ k @ ''='' @ (if x then ''true'' else ''false'') @ '','')
              | LNumber n \<Rightarrow> Some (firstError, b @ k @ ''='' @ Sprintf_v F n @ '','')
              | _ \<Rightarrow> Some (Some (UnsupportedValueType (Type value) k), b))))\<close>

fun stringPackW :: "nat \<Rightarrow> fmt \<Rightarrow> 'a heap \<Rightarrow> 'a \<Rightarrow> bool \<Rightarrow> (error + string) option" where
  "stringPackW 0 F h data recursive = None"
| "stringPackW (Suc depth) F h data recursive =
     (case fold (packEntryW F h (\<lambda>tbl. stringPackW depth F h tbl True))
             (h data) (Some (None, (if recursive then [] else ''return '') @ ''{'')) of
        None \<Rightarrow> None
      | Some (Some firstError, b) \<Rightarrow> Some (Inl firstError)
      | Some (None, b) \<Rightarrow> Some (Inr (b @ ''}'')))"

text \<open>
  \<open>Writer.Write\<close>. \<open>flate.NewWriter\<close> fails for an invalid level only, and the level is
  the constant \<open>flate.BestSpeed\<close>, so its error branch is never taken.
\<close>

definition Writer_Write ::
  "nat \<Rightarrow> ('o, 'w, 'x) flate \<Rightarrow> fmt \<Rightarrow> 'a heap \<Rightarrow> 'o \<Rightarrow> 'a \<Rightarrow> ('x encode_error option \<times> 'o) option" where
  "Writer_Write depth Z F h iw inp =
     (let zw = NewWriter Z iw in
      case stringPackW depth F h inp False of
        None \<Rightarrow> None
      | Some (Inl err) \<Rightarrow> Some (Some (PackError err), Close Z zw)
      | Some (Inr data) \<Rightarrow>
          (case Write Z data zw of
             (Some err, zw') \<Rightarrow> Some (Some (WriteError err), Close Z zw')
           | (None, zw') \<Rightarrow>
               (case Flush Z zw' of (r, zw'') \<Rightarrow> Some (map_option WriteError r, Close Z zw''))))"

section \<open>Decoding: unmarshal.go\<close>

text \<open>
  Decoding inflates the input and hands the text to a fresh gopher-lua interpreter.
  Both are library code and are parameters of the model: \<open>ReadAll\<close> is
  \<open>io.ReadAll(flate.NewReader(in))\<close>; \<open>DoString\<close> is \<open>lua.NewState()\<close> followed by
  \<open>l.DoString(chunk)\<close> and answers the interpreter's error or its state \<open>'l\<close> after the
  chunk has run; \<open>GetGlobal\<close> reads a global of that state; \<open>Deref\<close> is the table struct
  a \<open>*lua.LTable\<close> of that state points to. A reader is identified with the bytes it
  delivers.
\<close>

record ('x, 'l, 'a) lua =
  ReadAll :: "string \<Rightarrow> 'x + string"
  DoString :: "string \<Rightarrow> 'x + 'l"
  GetGlobal :: "'l \<Rightarrow> string \<Rightarrow> 'a LValue"
  Deref :: "'l \<Rightarrow> 'a \<Rightarrow> 'a entries"

definition TrimPrefix :: "string \<Rightarrow> string \<Rightarrow> string" where
  "TrimPrefix s p = (if prefix p s then drop (length p) s else s)"

text \<open>
  The errors of \<open>UnmarshalRead\<close>: the one of \<open>io.ReadAll\<close>, the one of \<open>DoString\<close>
  (both returned as they are) and "unable to typecast as lua.LTable".
\<close>

datatype 'x decode_error = ReadError 'x | LuaError 'x | NotATable

text \<open>
  \<open>out\<close> is the table struct the caller's pointer refers to; the function returns its
  error and the struct as the call leaves it (\<open>*out = *zwData\<close> on the last path only).
\<close>

definition UnmarshalRead ::
  "('x, 'l, 'a) lua \<Rightarrow> string \<Rightarrow> 'a entries \<Rightarrow> 'x decode_error option \<times> 'a entries" where
  "UnmarshalRead L inp out =
     (case ReadAll L inp of
        Inl err \<Rightarrow> (Some (ReadError err), out)
      | Inr content \<Rightarrow>
          (case DoString L (''zw_data = ('' @ TrimPrefix content ''return '' @ '')'') of
             Inl err \<Rightarrow> (Some (LuaError err), out)
           | Inr l \<Rightarrow>
               (case GetGlobal L l ''zw_data'' of
                  LTable zwData \<Rightarrow> (None, Deref L l zwData)
                | _ \<Rightarrow> (Some NotATable, out))))"

definition Unmarshal ::
  "('x, 'l, 'a) lua \<Rightarrow> string \<Rightarrow> 'a entries \<Rightarrow> 'x decode_error option \<times> 'a entries" where
  "Unmarshal L inp out = UnmarshalRead L inp out"

section \<open>Decoding: the Reader\<close>

text \<open>
  \<open>Reader.Read\<close> does what \<open>UnmarshalRead\<close> does, and returns the pointer \<open>zwData\<close>
  instead of copying the table; the model returns the table it points to.
\<close>

definition Reader_Read :: "('x, 'l, 'a) lua \<Rightarrow> string \<Rightarrow> 'x decode_error + 'a entries" where
  "Reader_Read L ir =
     (case ReadAll L ir of
        Inl err \<Rightarrow> Inl (ReadError err)
      | Inr content \<Rightarrow>
          (case DoString L (''zw_data = ('' @ TrimPrefix content ''return '' @ '')'') of
             Inl err \<Rightarrow> Inl (LuaError err)
           | Inr l \<Rightarrow>
               (case GetGlobal L l ''zw_data'' of
                  LTable zwData \<Rightarrow> Inr (Deref L l zwData)
                | _ \<Rightarrow> Inl NotATable)))"

section \<open>Tables used in the worked examples\<close>

text \<open>Three table identities are enough for every example below.\<close>

datatype tid = T0 | T1 | T2

instantiation tid :: finite
begin

instance
proof
  have all: "(UNIV :: tid set) = {T0, T1, T2}"
    using tid.exhaust by auto
  show "finite (UNIV :: tid set)"
    unfolding all by simp
qed

end

text \<open>
  The examples need some \<open>fmt\<close>. On a string of printable ASCII characters other than
  the quote and the backslash, \<open>%q\<close> puts the string between two quotes; the examples
  use such strings only, and no numbers.
\<close>

definition plain_fmt :: fmt where
  "plain_fmt = \<lparr>Sprintf_q = (\<lambda>s. [CHR 0x22] @ s @ [CHR 0x22]), Sprintf_v = (\<lambda>n. [])\<rparr>"

text \<open>
  A compressor that stores the text as it is, and an interpreter for the worked
  examples. The interpreter answers on the chunks that the package's tests make of their
  inputs, in agreement with what those tests expect. In \<open>TestUnmarshal\<close>, \<open>return {}\<close>
  decodes to an empty table, and \<open>return "foo"\<close> is refused: the chunk assigns a string,
  which is not a table. In \<open>TestReader_Read\<close>, \<open>return {['foo']="bar",}\<close> and
  \<open>return {['flag']=true,}\<close> decode to tables with one entry. On any other chunk the
  stand-in answers with an error, as the tests expect for \<open>@\<close>; that says nothing
  about other chunks. Its state is the value of the global \<open>zw_data\<close> with the tables
  it made, and its reader delivers the input as it is.
\<close>

definition store_flate :: "(string, string, unit) flate" where
  "store_flate =
     \<lparr>NewWriter = (\<lambda>out. out), Write = (\<lambda>data zw. (None, zw @ data)),
      Flush = (\<lambda>zw. (None, zw)), Close = (\<lambda>zw. zw)\<rparr>"

definition tests_lua :: "(unit, tid LValue \<times> tid heap, tid) lua" where
  \<open>tests_lua =
     \<lparr>ReadAll = (\<lambda>inp. Inr inp),
      DoString = (\<lambda>chunk.
        if chunk = ''zw_data = ({})'' then Inr (LTable T0, \<lambda>a. [])
        else if chunk = ''zw_data = ("foo")'' then Inr (LString ''foo'', \<lambda>a. [])
        else if chunk = ''zw_data = ({['foo']="bar",})''
          then Inr (LTable T0, (\<lambda>a. [])(T0 := [(LString ''foo'', LString ''bar'')]))
        else if chunk = ''zw_data = ({['flag']=true,})''
          then Inr (LTable T0, (\<lambda>a. [])(T0 := [(LString ''flag'', LBool True)]))
        else Inl ()),
      GetGlobal = (\<lambda>l name. if name = ''zw_data'' then fst l else LNil),
      Deref = (\<lambda>l a. snd l a)\<rparr>\<close>


definition self_ref :: "tid heap" where
  "self_ref = (\<lambda>a. [])(T0 := [(LString ''foo'', LString ''bar''), (LString ''self'', LTable T0)])"

definition two_errors :: "tid heap" where
  "two_errors =
     (\<lambda>a. [])(T0 := [(LString ''foo'', LFunction 0), (LBool True, LString ''invalid'')])"

definition through_object :: "tid heap" where
  "through_object =
     (\<lambda>a. [])(T0 := [(LString ''a'', LTable T1)],
               T1 := [(LString ''is'', LFunction 0), (LString ''back'', LTable T0)])"

definition is_root :: "tid heap" where
  "is_root = (\<lambda>a. [])(T0 := [(LString ''is'', LFunction 0), (LString ''foo'', LString ''bar'')])"

definition is_root_between :: "tid heap" where
  "is_root_between =
     (\<lambda>a. [])(T0 := [(LString ''a'', LTable T1), (LString ''is'', LFunction 0),
                      (LString ''b'', LTable T1)],
               T1 := [(LBool True, LString ''invalid'')])"

section \<open>The literal grammar of the specification\<close>

text \<open>
  Two claims speak of the grammar of section 4.3 of the specification. It is written
  down here from the specification's words, not from the code, which has no parser:
  \<^verbatim>\<open>
  Expr      := Table
  Table     := "{" Entry* "}"
  Entry     := "[" Key "]" "=" Value ","
  Key       := StringLit | NumberLit
  Value     := Table | StringLit | BoolLit | NumberLit
  StringLit := '"' (EscapedChar | OrdinaryChar)* '"'
  BoolLit   := "true" | "false"
  NumberLit := ["-"] Digits ["." Digits] [("e"|"E") ["+"|"-"] Digits]
  \<close>
  Whitespace may stand between tokens, the comma after the last entry may be missing,
  and the input must match after a leading \<open>return\<close> keyword and the whitespace around
  it and around the literal are stripped. The specification does not list the escapes:
  here an ordinary character is any character but the quote and the backslash, and an
  escape is a backslash with any one character, which leaves out no literal the
  specification could mean.
\<close>

definition isSpace :: "char \<Rightarrow> bool" where
  "isSpace c \<longleftrightarrow> c = CHR '' '' \<or> c = CHR 0x09 \<or> c = CHR 0x0A \<or> c = CHR 0x0D"

definition blank :: "string \<Rightarrow> bool" where
  "blank w \<longleftrightarrow> list_all isSpace w"

definition isDigit :: "char \<Rightarrow> bool" where
  "isDigit c \<longleftrightarrow> c \<in> set ''0123456789''"

definition Digits :: "string \<Rightarrow> bool" where
  "Digits s \<longleftrightarrow> s \<noteq> [] \<and> list_all isDigit s"

inductive stringBody :: "string \<Rightarrow> bool" where
  "stringBody []"
| "c \<noteq> CHR 0x22 \<Longrightarrow> c \<noteq> CHR 0x5C \<Longrightarrow> stringBody s \<Longrightarrow> stringBody (c # s)"
| "stringBody s \<Longrightarrow> stringBody (CHR 0x5C # c # s)"

definition StringLit :: "string \<Rightarrow> bool" where
  "StringLit s \<longleftrightarrow> (\<exists>body. stringBody body \<and> s = CHR 0x22 # body @ [CHR 0x22])"

definition BoolLit :: "string \<Rightarrow> bool" where
  "BoolLit s \<longleftrightarrow> s = ''true'' \<or> s = ''false''"

definition NumberLit :: "string \<Rightarrow> bool" where
  "NumberLit s \<longleftrightarrow>
     (\<exists>sign int frac ex.
        s = sign @ int @ frac @ ex \<and>
        (sign = [] \<or> sign = ''-'') \<and> Digits int \<and>
        (frac = [] \<or> (\<exists>d. Digits d \<and> frac = ''.'' @ d)) \<and>
        (ex = [] \<or>
          (\<exists>e sg d. (e = ''e'' \<or> e = ''E'') \<and> (sg = [] \<or> sg = ''+'' \<or> sg = ''-'') \<and>
             Digits d \<and> ex = e @ sg @ d)))"

definition KeyLit :: "string \<Rightarrow> bool" where
  "KeyLit s \<longleftrightarrow> StringLit s \<or> NumberLit s"

inductive ValueLit :: "string \<Rightarrow> bool" and TableLit :: "string \<Rightarrow> bool"
  and EntriesLit :: "string \<Rightarrow> bool" where
  "TableLit s \<Longrightarrow> ValueLit s"
| "StringLit s \<Longrightarrow> ValueLit s"
| "BoolLit s \<Longrightarrow> ValueLit s"
| "NumberLit s \<Longrightarrow> ValueLit s"
| "EntriesLit es \<Longrightarrow> blank w \<Longrightarrow> TableLit (''{'' @ es @ w @ ''}'')"
| "EntriesLit []"
| "blank w1 \<Longrightarrow> blank w2 \<Longrightarrow> blank w3 \<Longrightarrow> blank w4 \<Longrightarrow> blank w5 \<Longrightarrow> blank w6 \<Longrightarrow>
   KeyLit k \<Longrightarrow> ValueLit v \<Longrightarrow> EntriesLit es \<Longrightarrow>
   EntriesLit (w1 @ ''['' @ w2 @ k @ w3 @ '']'' @ w4 @ ''='' @ w5 @ v @ w6 @ '','' @ es)"
| "blank w1 \<Longrightarrow> blank w2 \<Longrightarrow> blank w3 \<Longrightarrow> blank w4 \<Longrightarrow> blank w5 \<Longrightarrow>
   KeyLit k \<Longrightarrow> ValueLit v \<Longrightarrow>
   EntriesLit (w1 @ ''['' @ w2 @ k @ w3 @ '']'' @ w4 @ ''='' @ w5 @ v)"

definition in_grammar :: "string \<Rightarrow> bool" where
  "in_grammar inp \<longleftrightarrow>
     (\<exists>w0 kw w1 t w2.
        blank w0 \<and> (kw = [] \<or> kw = ''return '') \<and> blank w1 \<and> blank w2 \<and> TableLit t \<and>
        inp = w0 @ kw @ w1 @ t @ w2)"

text \<open>The characters a key can start with: the quote, the minus sign and the digits.\<close>

definition keyStart :: "char \<Rightarrow> bool" where
  "keyStart c \<longleftrightarrow> c = CHR 0x22 \<or> c = CHR ''-'' \<or> isDigit c"

section \<open>Notions the statements use\<close>

text \<open>
  An object table (the spec's placeholder): a table whose \<open>is\<close> is a function, as the
  callback tests it. A valid key is one the first switch of the callback accepts.
\<close>

definition placeholder :: "'a heap \<Rightarrow> 'a \<Rightarrow> bool" where
  "placeholder h tbl \<longleftrightarrow> Type (RawGetString (h tbl) ''is'') = LTFunction"

definition validKey :: "'a LValue \<Rightarrow> bool" where
  "validKey key \<longleftrightarrow> Type key = LTString \<or> Type key = LTNumber"

text \<open>
  \<open>entryError\<close> is the error the callback assigns to \<open>gerr\<close> at one entry, if it does.
  \<open>lastError\<close> is what a run of the callback over a list of entries leaves in \<open>gerr\<close>:
  every failing entry overwrites it and no entry clears it.
\<close>

definition entryError ::
  "fmt \<Rightarrow> 'a heap \<Rightarrow> ('a \<Rightarrow> error + string) \<Rightarrow> 'a LValue \<times> 'a LValue \<Rightarrow> error option" where
  "entryError F h pack e = fst (packEntry F h pack e (None, []))"

definition lastError ::
  "fmt \<Rightarrow> 'a heap \<Rightarrow> ('a \<Rightarrow> error + string) \<Rightarrow> 'a entries \<Rightarrow> error option \<Rightarrow> error option" where
  "lastError F h pack es g =
     fold (\<lambda>e g. case entryError F h pack e of Some x \<Rightarrow> Some x | None \<Rightarrow> g) es g"

text \<open>
  \<open>descends h\<close> holds the pairs \<open>(a, b)\<close> for which packing table \<open>a\<close> calls
  \<open>stringPack\<close> on table \<open>b\<close>: \<open>b\<close> is a value of \<open>a\<close> under a valid key and is not an
  object table. A plain entry has a valid key and a table, string, boolean or number as
  its value. \<open>cause\<close> follows the \<open>%w\<close> chain of an error to its end, as \<open>errors.Unwrap\<close>
  does.
\<close>

definition descends :: "'a heap \<Rightarrow> ('a \<times> 'a) set" where
  "descends h =
     {(a, b). \<exists>key. (key, LTable b) \<in> set (h a) \<and> validKey key \<and> \<not> placeholder h b}"

definition plainEntry :: "'a LValue \<times> 'a LValue \<Rightarrow> bool" where
  "plainEntry e \<longleftrightarrow>
     validKey (fst e) \<and> Type (snd e) \<in> {LTTable, LTString, LTBool, LTNumber}"

fun cause :: "error \<Rightarrow> error" where
  "cause (PackingTableValue k err) = cause err"
| "cause err = err"

text \<open>
  \<open>replaceObject h p\<close> is the heap \<open>h\<close> in which every table that held table \<open>p\<close> as a
  value holds the string \<open>MANUAL_REPLACE\<close> there instead.
\<close>

definition asString :: "'a \<Rightarrow> 'a LValue \<Rightarrow> 'a LValue" where
  "asString p value = (if value = LTable p then LString ''MANUAL_REPLACE'' else value)"

definition replaceObject :: "'a heap \<Rightarrow> 'a \<Rightarrow> 'a heap" where
  "replaceObject h p = (\<lambda>a. map (\<lambda>(key, value). (key, asString p value)) (h a))"

text \<open>
  \<open>runsToTable L inp tb\<close>: the reader delivers some text, the interpreter runs the chunk
  made of it without an error, and the global \<open>zw_data\<close> then holds the table \<open>tb\<close>.
\<close>

definition runsToTable :: "('x, 'l, 'a) lua \<Rightarrow> string \<Rightarrow> 'a entries \<Rightarrow> bool" where
  "runsToTable L inp tb \<longleftrightarrow>
     (\<exists>content l zwData.
        ReadAll L inp = Inr content \<and>
        DoString L (''zw_data = ('' @ TrimPrefix content ''return '' @ '')'') = Inr l \<and>
        GetGlobal L l ''zw_data'' = LTable zwData \<and>
        tb = Deref L l zwData)"








section \<open>Numbers and their decimal text\<close>

text \<open>
  The specification asks that a number be written as the shortest decimal text that
  parses back to the identical 64-bit floating-point value. These notions are written
  down here from the specification's words and from the binary64 format; the code has
  none of them, it hands the number to \<open>fmt\<close>.

  A number is its 64 bits: one sign bit, eleven exponent bits and fifty-two fraction
  bits. It is finite unless all exponent bits are set. The value of a finite number
  with exponent bits \<open>e\<close> and fraction bits \<open>f\<close> is \<open>f / 2^1074\<close> when \<open>e\<close> is zero and
  \<open>(2^52 + f) * 2^e / 2^1075\<close> otherwise, negated when the sign bit is set. The two zeros
  have the same value
  and differ in the sign bit.
\<close>

definition posZero :: "64 word" where
  "posZero = 0"

definition negZero :: "64 word" where
  "negZero = 0x8000000000000000"

definition signBit :: "64 word \<Rightarrow> bool" where
  "signBit n \<longleftrightarrow> bit n 63"

definition exponentBits :: "64 word \<Rightarrow> nat" where
  "exponentBits n = unat (take_bit 11 (drop_bit 52 n))"

definition fractionBits :: "64 word \<Rightarrow> nat" where
  "fractionBits n = unat (take_bit 52 n)"

definition isFinite64 :: "64 word \<Rightarrow> bool" where
  "isFinite64 n \<longleftrightarrow> exponentBits n \<noteq> 2047"

definition float64Value :: "64 word \<Rightarrow> rat" where
  "float64Value n =
     (if signBit n then - 1 else 1) *
     (if exponentBits n = 0 then of_nat (fractionBits n) / 2 ^ 1074
      else of_nat (2 ^ 52 + fractionBits n) * 2 ^ exponentBits n / 2 ^ 1075)"

text \<open>
  The value of a decimal text of the form \<open>NumberLit\<close> of section 4.3: an optional minus
  sign, digits, an optional fraction and an optional exponent. A text of another form
  has no value.
\<close>

definition digitsValue :: "string \<Rightarrow> nat" where
  "digitsValue ds = foldl (\<lambda>a c. 10 * a + (of_char c - 48)) 0 ds"

definition negativeText :: "string \<Rightarrow> bool" where
  "negativeText t \<longleftrightarrow> (case t of [] \<Rightarrow> False | c # cs \<Rightarrow> c = CHR ''-'')"

definition exponentValue :: "string \<Rightarrow> int option" where
  "exponentValue ex =
     (case ex of
        [] \<Rightarrow> Some 0
      | e # r \<Rightarrow>
          if e = CHR ''e'' \<or> e = CHR ''E'' then
            (let neg = negativeText r;
                 d = (if neg \<or> (r \<noteq> [] \<and> hd r = CHR ''+'') then tl r else r)
             in if Digits d then Some ((if neg then - 1 else 1) * int (digitsValue d)) else None)
          else None)"

definition decimalValue :: "string \<Rightarrow> rat option" where
  "decimalValue t =
     (let s = (if negativeText t then tl t else t);
          ip = takeWhile isDigit s;
          r = dropWhile isDigit s;
          fp = (case r of [] \<Rightarrow> [] | c # cs \<Rightarrow> if c = CHR ''.'' then takeWhile isDigit cs else []);
          ex = (case r of [] \<Rightarrow> [] | c # cs \<Rightarrow> if c = CHR ''.'' then dropWhile isDigit cs else r)
      in if ip = [] \<or> (r \<noteq> [] \<and> hd r = CHR ''.'' \<and> fp = []) then None
         else
           (case exponentValue ex of
              None \<Rightarrow> None
            | Some e \<Rightarrow>
                Some ((if negativeText t then - 1 else 1) *
                      (of_nat (digitsValue ip) + of_nat (digitsValue fp) / 10 ^ length fp) *
                      (if 0 \<le> e then 10 ^ nat e else 1 / 10 ^ nat (- e)))))"

text \<open>
  A text parses back to the number \<open>n\<close> when \<open>n\<close> is the finite number that reading
  the text gives: the text has a value below the overflow threshold, the sign of \<open>n\<close> is
  the sign written in the text, no finite number is nearer to the value of the text, and
  of two nearest numbers \<open>n\<close> is the one with an even fraction. A number is an exact
  integer when its value is a whole number. \<open>writesShortestText F\<close> is the specification's
  sentence about a formatter \<open>F\<close>: at every finite number the text parses back to that
  number, no text that parses back to it is shorter, and the text of an exact integer has
  no fractional part.
\<close>

definition parsesBackTo :: "string \<Rightarrow> 64 word \<Rightarrow> bool" where
  "parsesBackTo t n \<longleftrightarrow>
     isFinite64 n \<and>
     (case decimalValue t of
        None \<Rightarrow> False
      | Some d \<Rightarrow>
          \<bar>d\<bar> < 2 ^ 1024 - 2 ^ 970 \<and>
          signBit n = negativeText t \<and>
          (\<forall>m. isFinite64 m \<longrightarrow> \<bar>float64Value n - d\<bar> \<le> \<bar>float64Value m - d\<bar>) \<and>
          (\<forall>m. isFinite64 m \<and> \<bar>float64Value m - d\<bar> = \<bar>float64Value n - d\<bar> \<and>
                float64Value m \<noteq> float64Value n \<longrightarrow> even (fractionBits n)))"








section \<open>The callback loop\<close>

lemma stringPack_visited:
  "data \<in> visited \<Longrightarrow> stringPack F h data recursive visited = Inl CircularReference"
  by (subst stringPack.simps) simp

lemma stringPack_unfold:
  "data \<notin> visited \<Longrightarrow>
   stringPack F h data recursive visited =
     (case fold (packEntry F h (\<lambda>tbl. stringPack F h tbl True (insert data visited)))
             (h data) (None, (if recursive then [] else ''return '') @ ''{'') of
        (Some gerr, b) \<Rightarrow> Inl gerr
      | (None, b) \<Rightarrow> Inr (b @ ''}''))"
  by (subst stringPack.simps) simp

lemma packEntry_gerr:
  "fst (packEntry F h pack e (g, b)) =
     (case entryError F h pack e of Some x \<Rightarrow> Some x | None \<Rightarrow> g)"
  by (cases e) (auto simp: entryError_def split: option.splits LValue.splits sum.splits)

lemma fold_packEntry_gerr:
  "fst (fold (packEntry F h pack) es (g, b)) = lastError F h pack es g"
proof (induction es arbitrary: g b)
  case Nil
  then show ?case by (simp add: lastError_def)
next
  case (Cons e es)
  obtain g' b' where step: "packEntry F h pack e (g, b) = (g', b')"
    by (cases "packEntry F h pack e (g, b)")
  have "g' = (case entryError F h pack e of Some x \<Rightarrow> Some x | None \<Rightarrow> g)"
    using packEntry_gerr [of F h pack e g b] step by simp
  with Cons.IH [of g' b'] step show ?case
    by (simp add: lastError_def)
qed

text \<open>A call on a table not yet visited fails exactly when the loop leaves an error.\<close>

lemma stringPack_Inl_iff:
  assumes "data \<notin> visited"
  shows "stringPack F h data recursive visited = Inl err \<longleftrightarrow>
     lastError F h (\<lambda>tbl. stringPack F h tbl True (insert data visited)) (h data) None = Some err"
proof -
  let ?pack = "\<lambda>tbl. stringPack F h tbl True (insert data visited)"
  let ?b0 = "(if recursive then [] else ''return '') @ ''{''"
  obtain g b where run: "fold (packEntry F h ?pack) (h data) (None, ?b0) = (g, b)"
    by (cases "fold (packEntry F h ?pack) (h data) (None, ?b0)")
  have last: "lastError F h ?pack (h data) None = g"
    using fold_packEntry_gerr [of F h ?pack "h data" None ?b0] run by simp
  have "stringPack F h data recursive visited =
      (case g of Some gerr \<Rightarrow> Inl gerr | None \<Rightarrow> Inr (b @ ''}''))"
    using run assms by (simp add: stringPack_unfold split: option.splits)
  then show ?thesis
    unfolding last by (cases g) auto
qed

lemma lastError_sticky: "g \<noteq> None \<Longrightarrow> lastError F h pack es g \<noteq> None"
  by (induction es arbitrary: g) (auto simp: lastError_def split: option.splits)

lemma lastError_append:
  "lastError F h pack (es @ es') g = lastError F h pack es' (lastError F h pack es g)"
  by (simp add: lastError_def)

lemma lastError_no_errors:
  "\<forall>e \<in> set es. entryError F h pack e = None \<Longrightarrow> lastError F h pack es g = g"
  by (induction es arbitrary: g) (auto simp: lastError_def)

lemma lastError_fails:
  "e \<in> set es \<Longrightarrow> entryError F h pack e \<noteq> None \<Longrightarrow> lastError F h pack es g \<noteq> None"
proof (induction es arbitrary: g)
  case Nil
  then show ?case by simp
next
  case (Cons a es)
  show ?case
  proof (cases "a = e")
    case True
    with Cons.prems obtain x where "entryError F h pack a = Some x" by auto
    then have "lastError F h pack (a # es) g = lastError F h pack es (Some x)"
      by (simp add: lastError_def)
    then show ?thesis using lastError_sticky [of "Some x" F h pack es] by simp
  next
    case False
    with Cons.prems have "e \<in> set es" by simp
    from Cons.IH [OF this Cons.prems(2)] show ?thesis
      by (simp add: lastError_def)
  qed
qed

lemma lastError_only:
  assumes "e \<in> set es" and "entryError F h pack e = Some x"
    and "\<forall>e' \<in> set es. e' \<noteq> e \<longrightarrow> entryError F h pack e' = None"
  shows "lastError F h pack es None = Some x"
proof -
  have "g = None \<or> g = Some x \<Longrightarrow>
      \<forall>e' \<in> set es. e' \<noteq> e \<longrightarrow> entryError F h pack e' = None \<Longrightarrow>
      lastError F h pack es g = (if e \<in> set es then Some x else g)" for g
  proof (induction es arbitrary: g)
    case Nil
    then show ?case by (simp add: lastError_def)
  next
    case (Cons a es)
    show ?case
    proof (cases "a = e")
      case True
      have "lastError F h pack (a # es) g = lastError F h pack es (Some x)"
        using True assms(2) by (simp add: lastError_def)
      also have "\<dots> = (if e \<in> set es then Some x else Some x)"
        using Cons.IH [of "Some x"] Cons.prems(2) by simp
      finally show ?thesis using True by simp
    next
      case False
      then have "entryError F h pack a = None" using Cons.prems(2) by simp
      then have "lastError F h pack (a # es) g = lastError F h pack es g"
        by (simp add: lastError_def)
      then show ?thesis using Cons.IH [of g] Cons.prems False by auto
    qed
  qed
  from this [of None] assms show ?thesis by simp
qed

lemma lastError_Some:
  assumes "lastError F h pack es None = Some err"
  shows "\<exists>e \<in> set es. entryError F h pack e = Some err"
proof -
  have "lastError F h pack es g = Some err \<Longrightarrow>
      g = Some err \<or> (\<exists>e \<in> set es. entryError F h pack e = Some err)" for g
    by (induction es arbitrary: g) (auto simp: lastError_def split: option.splits)
  from this [of None] assms show ?thesis by simp
qed

text \<open>
  What \<open>stringPack\<close> in marshal.go returns when entries fail: the error of the failing
  entry that \<open>ForEach\<close> yields last.
\<close>

lemma stringPack_returns_last_error:
  assumes "data \<notin> visited" and "h data = es @ e # es'"
    and "entryError F h (\<lambda>tbl. stringPack F h tbl True (insert data visited)) e = Some err"
    and "\<forall>e' \<in> set es'.
           entryError F h (\<lambda>tbl. stringPack F h tbl True (insert data visited)) e' = None"
  shows "stringPack F h data recursive visited = Inl err"
proof -
  let ?pack = "\<lambda>tbl. stringPack F h tbl True (insert data visited)"
  have "lastError F h ?pack (es @ e # es') None = lastError F h ?pack es' (Some err)"
    using assms(3) lastError_append [of F h ?pack es "e # es'" None]
    by (simp add: lastError_def)
  also have "\<dots> = Some err"
    using lastError_no_errors [OF assms(4)] .
  finally show ?thesis
    using assms(1,2) by (simp add: stringPack_Inl_iff)
qed

text \<open>
  The callback of the \<open>Writer\<close> leaves its state alone once \<open>firstError\<close> is set, so the
  error of the first failing entry is the one that stays.
\<close>

lemma packEntryW_after_error:
  "fold (packEntryW F h pack) es (Some (Some err, b)) = Some (Some err, b)"
proof (induction es)
  case Nil
  then show ?case by simp
next
  case (Cons e es)
  obtain key "value" where "e = (key, value)" by (cases e)
  with Cons show ?case by simp
qed

lemma packEntryW_None: "fold (packEntryW F h pack) es None = None"
proof (induction es)
  case Nil
  then show ?case by simp
next
  case (Cons e es)
  obtain key "value" where "e = (key, value)" by (cases e)
  with Cons show ?case by simp
qed

lemma stringPackW_returns_first_error:
  assumes "h data = es @ e # es'"
    and "fold (packEntryW F h (\<lambda>tbl. stringPackW depth F h tbl True)) es
           (Some (None, (if recursive then [] else ''return '') @ ''{'')) = Some (None, b)"
    and "packEntryW F h (\<lambda>tbl. stringPackW depth F h tbl True) e (Some (None, b))
           = Some (Some err, b')"
  shows "stringPackW (Suc depth) F h data recursive = Some (Inl err)"
  using assms by (simp add: packEntryW_after_error)

text \<open>
  The depth given to \<open>stringPackW\<close> only bounds the descent: a result it returns at one
  depth is the result at every greater depth.
\<close>

lemma packEntryW_mono:
  assumes "\<And>tbl r. pack tbl = Some r \<Longrightarrow> pack' tbl = Some r"
    and "packEntryW F h pack e s = Some t"
  shows "packEntryW F h pack' e s = Some t"
proof -
  obtain key "value" where e: "e = (key, value)" by (cases e)
  from assms(2) obtain firstError b where s: "s = Some (firstError, b)"
    using e by (cases s) auto
  show ?thesis
    using assms(2) assms(1) unfolding e s
    by (auto split: if_splits option.splits LValue.splits sum.splits)
qed

lemma fold_packEntryW_mono:
  assumes "\<And>tbl r. pack tbl = Some r \<Longrightarrow> pack' tbl = Some r"
    and "fold (packEntryW F h pack) es s = Some t"
  shows "fold (packEntryW F h pack') es s = Some t"
  using assms(2)
proof (induction es arbitrary: s)
  case Nil
  then show ?case by simp
next
  case (Cons e es)
  from Cons.prems obtain u where u: "packEntryW F h pack e s = Some u"
    by (cases "packEntryW F h pack e s") (simp_all add: packEntryW_None)
  from packEntryW_mono [OF assms(1) u] have "packEntryW F h pack' e s = Some u" by simp
  with Cons.IH [of "Some u"] Cons.prems u show ?case by simp
qed

lemma stringPackW_more_depth:
  "stringPackW depth F h data r = Some res \<Longrightarrow> stringPackW (Suc depth) F h data r = Some res"
proof (induction depth arbitrary: data r res)
  case 0
  then show ?case by simp
next
  case (Suc depth)
  let ?s0 = "Some (None :: error option, (if r then [] else ''return '') @ ''{'')"
  from Suc.prems obtain t where
    t: "fold (packEntryW F h (\<lambda>tbl. stringPackW depth F h tbl True)) (h data) ?s0 = Some t"
    by (cases "fold (packEntryW F h (\<lambda>tbl. stringPackW depth F h tbl True)) (h data) ?s0")
      simp_all
  have "fold (packEntryW F h (\<lambda>tbl. stringPackW (Suc depth) F h tbl True)) (h data) ?s0 = Some t"
    by (rule fold_packEntryW_mono [OF _ t]) (rule Suc.IH)
  with Suc.prems t show ?case
    by (simp del: stringPackW.simps
        add: stringPackW.simps(2) [of "Suc depth"] stringPackW.simps(2) [of depth])
qed

text \<open>
  The text \<open>stringPack\<close> returns for a root starts with the keyword that
  \<open>UnmarshalRead\<close> strips, and what is left is a brace-enclosed body.
\<close>

lemma packEntry_appends: "\<exists>t. snd (packEntry F h pack e (g, b)) = b @ t"
  by (cases e) (auto split: option.splits LValue.splits sum.splits)

lemma fold_packEntry_appends: "\<exists>t. snd (fold (packEntry F h pack) es (g, b)) = b @ t"
proof (induction es arbitrary: g b)
  case Nil
  then show ?case by simp
next
  case (Cons e es)
  obtain g' b' where step: "packEntry F h pack e (g, b) = (g', b')"
    by (cases "packEntry F h pack e (g, b)")
  from packEntry_appends [of F h pack e g b] step obtain t where "b' = b @ t" by auto
  with Cons.IH [of g' b'] step show ?case by auto
qed

lemma stringPack_text:
  assumes "stringPack F h data False visited = Inr s"
  shows "\<exists>body. s = ''return {'' @ body @ ''}'' \<and>
           TrimPrefix s ''return '' = ''{'' @ body @ ''}''"
proof -
  have new: "data \<notin> visited"
    using assms by (auto simp: stringPack_visited)
  let ?run = "fold (packEntry F h (\<lambda>tbl. stringPack F h tbl True (insert data visited)))
      (h data) (None, ''return {'')"
  obtain g b where run: "?run = (g, b)" by (cases ?run)
  from fold_packEntry_appends
    [of F h "\<lambda>tbl. stringPack F h tbl True (insert data visited)" "h data" None "''return {''"]
  obtain t where "snd ?run = ''return {'' @ t" by blast
  then have "b = ''return {'' @ t" using run by simp
  moreover have "s = b @ ''}''"
    using assms new run by (cases g) (simp_all add: stringPack_unfold)
  ultimately show ?thesis
    by (auto simp: TrimPrefix_def)
qed







text \<open>When \<open>stringPack\<close> fails, \<open>MarshalWrite\<close> returns its error and writes no text.\<close>

lemma MarshalWrite_error:
  "stringPack F h inp False {} = Inl err \<Longrightarrow>
   MarshalWrite Z F h out inp = (Some (PackError err), Close Z (NewWriter Z out))"
  by (simp add: MarshalWrite_def)

section \<open>The visited map\<close>

lemma packEntryM_None: "fold (packEntryM F h pack) es None = None"
proof (induction es)
  case Nil
  then show ?case by simp
next
  case (Cons e es)
  obtain key "value" where "e = (key, value)" by (cases e)
  with Cons show ?case by simp
qed

lemma packEntryM_step:
  assumes same: "\<And>tbl res V'. pack tbl W = Some (res, V') \<Longrightarrow> res = pack0 tbl \<and> V' = W"
    and step: "packEntryM F h pack e (Some (g, b, W)) = Some (g', b', W')"
  shows "W' = W \<and> packEntry F h pack0 e (g, b) = (g', b')"
proof -
  obtain key "value" where e: "e = (key, value)" by (cases e)
  show ?thesis
    using step same unfolding e
    by (auto split: option.splits LValue.splits sum.splits if_splits prod.splits)
qed

lemma fold_packEntryM:
  assumes same: "\<And>tbl res V'. pack tbl W = Some (res, V') \<Longrightarrow> res = pack0 tbl \<and> V' = W"
    and run: "fold (packEntryM F h pack) es (Some (g, b, W)) = Some (g', b', W')"
  shows "W' = W \<and> fold (packEntry F h pack0) es (g, b) = (g', b')"
  using run
proof (induction es arbitrary: g b)
  case Nil
  then show ?case by simp
next
  case (Cons e es)
  from Cons.prems obtain s where s: "packEntryM F h pack e (Some (g, b, W)) = Some s"
    by (cases "packEntryM F h pack e (Some (g, b, W))") (simp_all add: packEntryM_None)
  obtain g1 b1 W1 where s1: "s = (g1, b1, W1)" by (cases s)
  from packEntryM_step [OF same s [unfolded s1]]
  have W1: "W1 = W" and one: "packEntry F h pack0 e (g, b) = (g1, b1)" by auto
  from Cons.prems s s1 W1 have "fold (packEntryM F h pack) es (Some (g1, b1, W)) = Some (g', b', W')"
    by simp
  from Cons.IH [OF this] one show ?case by simp
qed

text \<open>
  Whenever the function with the map threaded through returns, its result is the one
  of \<open>stringPack\<close> and the map is as it was before the call.
\<close>

lemma stringPackM_stringPack:
  "stringPackM depth F h data r V = Some (res, V') \<Longrightarrow> res = stringPack F h data r V \<and> V' = V"
proof (induction depth arbitrary: data r V res V')
  case 0
  then show ?case by simp
next
  case (Suc depth)
  show ?case
  proof (cases "data \<in> V")
    case True
    with Suc.prems show ?thesis by (simp add: stringPack_visited)
  next
    case False
    let ?W = "insert data V"
    let ?b0 = "(if r then [] else ''return '') @ ''{''"
    from Suc.prems False obtain s where
      s: "fold (packEntryM F h (\<lambda>tbl visited. stringPackM depth F h tbl True visited)) (h data)
            (Some (None, ?b0, ?W)) = Some s"
      by (auto split: option.splits)
    obtain g b W' where s1: "s = (g, b, W')" by (cases s)
    have "W' = ?W \<and> fold (packEntry F h (\<lambda>tbl. stringPack F h tbl True ?W)) (h data) (None, ?b0) = (g, b)"
      by (rule fold_packEntryM [OF _ s [unfolded s1]]) (rule Suc.IH)
    with Suc.prems False s s1 show ?thesis
      by (cases g) (auto simp: stringPack_unfold)
  qed
qed

text \<open>It returns once the depth exceeds the number of tables not yet visited.\<close>

lemma packEntryM_returns:
  assumes "\<And>tbl. pack tbl W \<noteq> None"
  shows "packEntryM F h pack e (Some (g, b, W)) \<noteq> None"
proof -
  obtain key "value" where e: "e = (key, value)" by (cases e)
  show ?thesis
    using assms [of "case value of LTable tbl \<Rightarrow> tbl"] unfolding e
    by (auto split: option.splits LValue.splits sum.splits prod.splits)
qed

lemma fold_packEntryM_returns:
  assumes same: "\<And>tbl res V'. pack tbl W = Some (res, V') \<Longrightarrow> res = pack0 tbl \<and> V' = W"
    and ret: "\<And>tbl. pack tbl W \<noteq> None"
  shows "fold (packEntryM F h pack) es (Some (g, b, W)) \<noteq> None"
proof (induction es arbitrary: g b)
  case Nil
  then show ?case by simp
next
  case (Cons e es)
  from packEntryM_returns [where pack = pack and W = W, OF ret, of F h e g b]
  obtain s where s: "packEntryM F h pack e (Some (g, b, W)) = Some s" by auto
  obtain g1 b1 W1 where s1: "s = (g1, b1, W1)" by (cases s)
  from packEntryM_step [OF same s [unfolded s1]] have "W1 = W" by simp
  with Cons.IH [of g1 b1] s s1 show ?case by simp
qed

lemma stringPackM_returns:
  "card (- V) < depth \<Longrightarrow> stringPackM depth F h data r (V :: ('a::finite) set) \<noteq> None"
proof (induction depth arbitrary: data r V)
  case 0
  then show ?case by simp
next
  case (Suc depth)
  show ?case
  proof (cases "data \<in> V")
    case True
    then show ?thesis by simp
  next
    case False
    then have "- insert data V \<subset> - V" by auto
    then have "card (- insert data V) < card (- V)"
      by (intro psubset_card_mono) simp_all
    with Suc.prems have small: "card (- insert data V) < depth" by simp
    let ?run = "fold (packEntryM F h (\<lambda>tbl visited. stringPackM depth F h tbl True visited))
        (h data) (Some (None, (if r then [] else ''return '') @ ''{'', insert data V))"
    have "?run \<noteq> None"
    proof (rule fold_packEntryM_returns
        [where ?pack0.0 = "\<lambda>tbl. stringPack F h tbl True (insert data V)"])
      show "res = stringPack F h tbl True (insert data V) \<and> V' = insert data V"
        if "stringPackM depth F h tbl True (insert data V) = Some (res, V')" for tbl res V'
        using stringPackM_stringPack [OF that] .
      show "stringPackM depth F h tbl True (insert data V) \<noteq> None" for tbl
        using Suc.IH [OF small] .
    qed
    then obtain g b W where "?run = Some (g, b, W)"
      by (cases ?run) auto
    with False show ?thesis
      by (cases g) simp_all
  qed
qed

section \<open>What the decoder accepts\<close>

lemma keyStart_not_space: "keyStart c \<Longrightarrow> \<not> isSpace c"
  by (auto simp: keyStart_def isSpace_def isDigit_def)

lemma Digits_start: "Digits s \<Longrightarrow> \<exists>c r. s = c # r \<and> isDigit c"
  by (cases s) (auto simp: Digits_def)

lemma KeyLit_start: "KeyLit k \<Longrightarrow> \<exists>c r. k = c # r \<and> keyStart c"
  unfolding KeyLit_def StringLit_def NumberLit_def
  by (auto simp: keyStart_def dest!: Digits_start)

lemma skip_blank: "blank w \<Longrightarrow> \<not> isSpace c \<Longrightarrow> dropWhile isSpace (w @ c # r) = c # r"
  by (induction w) (auto simp: blank_def)

lemma EntriesLit_start:
  assumes "EntriesLit es"
  shows "es = [] \<or>
    (\<exists>w1 w2 c r. blank w1 \<and> blank w2 \<and> keyStart c \<and> es = w1 @ ''['' @ w2 @ c # r)"
  using assms
proof (cases rule: EntriesLit.cases)
  case 1
  then show ?thesis by simp
next
  case (2 w1 w2 w3 w4 w5 w6 k v es')
  from KeyLit_start [OF 2(8)] obtain c r where k: "k = c # r" "keyStart c" by auto
  have "es = w1 @ ''['' @ w2 @ c # (r @ w3 @ '']'' @ w4 @ ''='' @ w5 @ v @ w6 @ '','' @ es')"
    using 2(1) k(1) by simp
  with 2(2,3) k(2) show ?thesis by blast
next
  case (3 w1 w2 w3 w4 w5 k v)
  from KeyLit_start [OF 3(7)] obtain c r where k: "k = c # r" "keyStart c" by auto
  have "es = w1 @ ''['' @ w2 @ c # (r @ w3 @ '']'' @ w4 @ ''='' @ w5 @ v)"
    using 3(1) k(1) by simp
  with 3(2,3) k(2) show ?thesis by blast
qed

text \<open>
  A text that opens a table and a key, and goes on with a character no key starts
  with, is outside the grammar.
\<close>

lemma not_a_table_literal:
  assumes c: "\<not> keyStart c" "\<not> isSpace c"
    and w: "blank w1"
    and t: "TableLit t"
    and split: "CHR ''{'' # CHR ''['' # c # rest = w1 @ t @ w2"
  shows False
proof -
  from t obtain es w where es: "EntriesLit es" and bw: "blank w"
    and t_eq: "t = ''{'' @ es @ w @ ''}''"
    by (cases rule: TableLit.cases) auto
  have "dropWhile isSpace (w1 @ CHR ''{'' # (es @ w @ ''}'' @ w2))
      = CHR ''{'' # (es @ w @ ''}'' @ w2)"
    by (rule skip_blank [OF w]) (simp add: isSpace_def)
  moreover have "dropWhile isSpace (CHR ''{'' # CHR ''['' # c # rest)
      = CHR ''{'' # CHR ''['' # c # rest"
    by (simp add: isSpace_def)
  ultimately have inner: "CHR ''['' # c # rest = es @ w @ ''}'' @ w2"
    using split t_eq by simp
  from EntriesLit_start [OF es] show False
  proof
    assume "es = []"
    with inner have "CHR ''['' # c # rest = w @ CHR ''}'' # w2" by simp
    moreover have "dropWhile isSpace (w @ CHR ''}'' # w2) = CHR ''}'' # w2"
      by (rule skip_blank [OF bw]) (simp add: isSpace_def)
    moreover have "dropWhile isSpace (CHR ''['' # c # rest) = CHR ''['' # c # rest"
      by (simp add: isSpace_def)
    ultimately show False by simp
  next
    assume "\<exists>v1 v2 d r. blank v1 \<and> blank v2 \<and> keyStart d \<and> es = v1 @ ''['' @ v2 @ d # r"
    then obtain v1 v2 d r where v: "blank v1" "blank v2" "keyStart d"
      and es_eq: "es = v1 @ ''['' @ v2 @ d # r" by blast
    have "dropWhile isSpace (v1 @ CHR ''['' # (v2 @ d # r @ w @ ''}'' @ w2))
        = CHR ''['' # (v2 @ d # r @ w @ ''}'' @ w2)"
      by (rule skip_blank [OF v(1)]) (simp add: isSpace_def)
    moreover have "dropWhile isSpace (CHR ''['' # c # rest) = CHR ''['' # c # rest"
      by (simp add: isSpace_def)
    ultimately have key: "c # rest = v2 @ d # (r @ w @ ''}'' @ w2)"
      using inner es_eq by simp
    have "dropWhile isSpace (v2 @ d # (r @ w @ ''}'' @ w2)) = d # (r @ w @ ''}'' @ w2)"
      by (rule skip_blank [OF v(2) keyStart_not_space [OF v(3)]])
    moreover have "dropWhile isSpace (c # rest) = c # rest"
      using c(2) by simp
    ultimately have "c = d" using key by simp
    with v(3) c(1) show False by simp
  qed
qed

lemma TableLit_start: "TableLit t \<Longrightarrow> \<exists>r. t = CHR ''{'' # r"
  by (cases rule: TableLit.cases) auto

lemma not_in_grammar:
  assumes inp: "inp = ''return '' @ CHR ''{'' # CHR ''['' # c # rest"
    and c: "\<not> keyStart c" "\<not> isSpace c"
  shows "\<not> in_grammar inp"
proof
  assume "in_grammar inp"
  then obtain w0 kw w1 t w2 where w: "blank w0" "blank w1" "blank w2"
    and kw: "kw = [] \<or> kw = ''return ''" and t: "TableLit t"
    and split: "inp = w0 @ kw @ w1 @ t @ w2"
    unfolding in_grammar_def by blast
  have start: "dropWhile isSpace inp = inp"
    unfolding inp by (simp add: isSpace_def)
  from kw show False
  proof
    assume "kw = []"
    from TableLit_start [OF t] obtain r where r: "t = CHR ''{'' # r" by auto
    have "blank (w0 @ w1)" using w by (simp add: blank_def)
    then have "dropWhile isSpace ((w0 @ w1) @ CHR ''{'' # (r @ w2)) = CHR ''{'' # (r @ w2)"
      by (rule skip_blank) (simp add: isSpace_def)
    then have "dropWhile isSpace inp = CHR ''{'' # (r @ w2)"
      using split \<open>kw = []\<close> r by simp
    with start show False
      unfolding inp by simp
  next
    assume "kw = ''return ''"
    have "dropWhile isSpace (w0 @ CHR ''r'' # (''eturn '' @ w1 @ t @ w2))
        = CHR ''r'' # (''eturn '' @ w1 @ t @ w2)"
      by (rule skip_blank [OF w(1)]) (simp add: isSpace_def)
    then have "dropWhile isSpace inp = ''return '' @ w1 @ t @ w2"
      using split \<open>kw = ''return ''\<close> by simp
    with start have "CHR ''{'' # CHR ''['' # c # rest = w1 @ t @ w2"
      unfolding inp by simp
    from not_a_table_literal [OF c w(2) t this] show False .
  qed
qed

text \<open>The grammar is not empty: it holds the texts the tests of \<open>Unmarshal\<close> decode.\<close>

lemma in_grammar_empty_table: "in_grammar ''return {}''"
proof -
  have "TableLit (''{'' @ [] @ [] @ ''}'')"
    by (intro ValueLit_TableLit_EntriesLit.intros) (simp add: blank_def)
  then have "blank [] \<and> (''return '' = [] \<or> ''return '' = ''return '') \<and> blank [] \<and> blank [] \<and>
      TableLit ''{}'' \<and> ''return {}'' = [] @ ''return '' @ [] @ ''{}'' @ []"
    by (simp add: blank_def)
  then show ?thesis
    unfolding in_grammar_def by blast
qed

lemma in_grammar_string_entry: \<open>in_grammar ''return {["foo"]="bar",}''\<close>
proof -
  have body: "stringBody ''foo''" "stringBody ''bar''"
    by (intro stringBody.intros; simp)+
  have key: \<open>KeyLit ''"foo"''\<close>
    unfolding KeyLit_def StringLit_def using body(1) by auto
  have val: \<open>ValueLit ''"bar"''\<close>
    by (rule ValueLit_TableLit_EntriesLit.intros(2)) (use body(2) in \<open>auto simp: StringLit_def\<close>)
  have \<open>EntriesLit
      ([] @ ''['' @ [] @ ''"foo"'' @ [] @ '']'' @ [] @ ''='' @ [] @ ''"bar"'' @ [] @ '','' @ [])\<close>
    by (intro ValueLit_TableLit_EntriesLit.intros(7) key val
        ValueLit_TableLit_EntriesLit.intros(6)) (simp_all add: blank_def)
  then have \<open>EntriesLit ''["foo"]="bar",''\<close> by simp
  then have \<open>TableLit (''{'' @ ''["foo"]="bar",'' @ [] @ ''}'')\<close>
    by (rule ValueLit_TableLit_EntriesLit.intros(5)) (simp add: blank_def)
  then have \<open>blank [] \<and> (''return '' = [] \<or> ''return '' = ''return '') \<and> blank [] \<and> blank [] \<and>
      TableLit ''{["foo"]="bar",}'' \<and>
      ''return {["foo"]="bar",}'' = [] @ ''return '' @ [] @ ''{["foo"]="bar",}'' @ []\<close>
    by (simp add: blank_def)
  then show ?thesis
    unfolding in_grammar_def by blast
qed

text \<open>
  Claim C2, as amended. The decoder has no check of its own on the text. It strips a
  leading \<open>return\<close> keyword, wraps the text as \<open>zw_data = (...)\<close> and has the interpreter
  run it: \<open>UnmarshalRead\<close>, \<open>Unmarshal\<close> and \<open>Reader.Read\<close> accept an input, with table
  \<open>tb\<close> as the result, exactly when the interpreter runs that chunk without an error
  and leaves the table \<open>tb\<close> in the global \<open>zw_data\<close>. Every other input is rejected
  with an error.
\<close>

theorem decoder_accepts_what_runs_to_a_table:
  "(UnmarshalRead L inp out = (None, tb) \<longleftrightarrow> runsToTable L inp tb) \<and>
   (Unmarshal L inp out = (None, tb) \<longleftrightarrow> runsToTable L inp tb) \<and>
   (Reader_Read L inp = Inr tb \<longleftrightarrow> runsToTable L inp tb) \<and>
   (fst (UnmarshalRead L inp out) \<noteq> None \<longleftrightarrow> (\<forall>tb'. \<not> runsToTable L inp tb')) \<and>
   (isl (Reader_Read L inp) \<longleftrightarrow> (\<forall>tb'. \<not> runsToTable L inp tb'))"
  by (auto simp: UnmarshalRead_def Unmarshal_def Reader_Read_def runsToTable_def
      split: sum.splits LValue.splits)

text \<open>
  The claim as it stands fails on an input of the package's own \<open>TestReader_Read\<close>: a
  key written between single quotes is outside the grammar, whose string literals
  start with the double quote, and \<open>Reader.Read\<close> has to decode it, as \<open>Unmarshal\<close>
  does, because the interpreter reads it.
\<close>

theorem single_quoted_key_counterexample:
  \<open>\<not> in_grammar ''return {['foo']="bar",}'' \<and>
   Reader_Read tests_lua ''return {['foo']="bar",}'' = Inr [(LString ''foo'', LString ''bar'')] \<and>
   Unmarshal tests_lua ''return {['foo']="bar",}'' []
     = (None, [(LString ''foo'', LString ''bar'')])\<close>
proof -
  have \<open>\<not> in_grammar ''return {['foo']="bar",}''\<close>
    by (rule not_in_grammar [of _ "CHR 0x27"])
       (simp_all add: keyStart_def isSpace_def isDigit_def)
  then show ?thesis
    by (simp add: Reader_Read_def Unmarshal_def UnmarshalRead_def tests_lua_def TrimPrefix_def)
qed

section \<open>Tables that contain themselves\<close>

lemma keyLiteral_validKey: "validKey key \<Longrightarrow> \<exists>k. keyLiteral F key = Some k"
  by (cases key) (simp_all add: validKey_def)

lemma entryError_table:
  assumes "validKey key" and "\<not> placeholder h b"
  shows "entryError F h pack (key, LTable b) =
     (case pack b of
        Inl err \<Rightarrow> Some (PackingTableValue (the (keyLiteral F key)) err)
      | Inr v \<Rightarrow> None)"
  using assms keyLiteral_validKey [OF assms(1), of F]
  by (auto simp: entryError_def placeholder_def split: sum.splits)

text \<open>A failing nested call makes the calling table fail.\<close>

lemma descend_fails:
  assumes edge: "(a, b) \<in> descends h" and new: "a \<notin> V"
    and nested: "stringPack F h b True (insert a V) = Inl err"
  shows "\<exists>err'. stringPack F h a r V = Inl err'"
proof -
  let ?pack = "\<lambda>tbl. stringPack F h tbl True (insert a V)"
  from edge obtain key where
    e: "(key, LTable b) \<in> set (h a)" "validKey key" "\<not> placeholder h b"
    by (auto simp: descends_def)
  have "entryError F h ?pack (key, LTable b) \<noteq> None"
    using entryError_table [OF e(2,3), of F ?pack] nested by simp
  from lastError_fails [OF e(1) this, of None]
  show ?thesis
    using new by (auto simp: stringPack_Inl_iff)
qed

text \<open>A table from which the descent reaches a table already being visited fails.\<close>

lemma reach_visited_fails:
  assumes "(a, c) \<in> (descends h)\<^sup>*" and "c \<in> V"
  shows "\<exists>err. stringPack F h a r V = Inl err"
  using assms
proof (induction arbitrary: V r rule: converse_rtrancl_induct)
  case base
  then show ?case by (simp add: stringPack_visited)
next
  case (step a b)
  show ?case
  proof (cases "a \<in> V")
    case True
    then show ?thesis by (simp add: stringPack_visited)
  next
    case False
    from step.IH [of "insert a V" True] step.prems
    obtain err where "stringPack F h b True (insert a V) = Inl err" by auto
    from descend_fails [OF step.hyps(1) False this] show ?thesis .
  qed
qed

lemma reach_cycle_fails:
  assumes "(a, c) \<in> (descends h)\<^sup>*" and "(c, c) \<in> (descends h)\<^sup>+"
  shows "\<exists>err. stringPack F h a r V = Inl err"
  using assms
proof (induction arbitrary: V r rule: converse_rtrancl_induct)
  case base
  show ?case
  proof (cases "c \<in> V")
    case True
    then show ?thesis by (simp add: stringPack_visited)
  next
    case False
    from base obtain b where b: "(c, b) \<in> descends h" "(b, c) \<in> (descends h)\<^sup>*"
      by (auto dest: tranclD)
    from reach_visited_fails [OF b(2), of "insert c V" F True]
    obtain err where "stringPack F h b True (insert c V) = Inl err" by auto
    from descend_fails [OF b(1) False this] show ?thesis .
  qed
next
  case (step a b)
  show ?case
  proof (cases "a \<in> V")
    case True
    then show ?thesis by (simp add: stringPack_visited)
  next
    case False
    from step.IH [OF step.prems, of True "insert a V"]
    obtain err where "stringPack F h b True (insert a V) = Inl err" by auto
    from descend_fails [OF step.hyps(1) False this] show ?thesis .
  qed
qed

lemma plain_entryError:
  assumes "plainEntry (key, value)" and "entryError F h pack (key, value) = Some err"
  shows "\<exists>tbl k err'. value = LTable tbl \<and> \<not> placeholder h tbl \<and> pack tbl = Inl err' \<and>
           err = PackingTableValue k err'"
  using assms keyLiteral_validKey [of key F]
  by (cases "value")
     (auto simp: plainEntry_def entryError_def placeholder_def split: sum.splits if_splits)

text \<open>Where every entry on the way is plain, a cycle is the only thing that can fail.\<close>

lemma plain_cause:
  assumes "\<forall>a. (data, a) \<in> (descends h)\<^sup>* \<longrightarrow> list_all plainEntry (h a)"
    and "stringPack F h data r V = Inl err"
  shows "cause err = CircularReference"
  using assms
proof (induction F h data r V arbitrary: err rule: stringPack.induct)
  case (1 F h data recursive visited)
  show ?case
  proof (cases "data \<in> visited")
    case True
    with "1.prems"(2) show ?thesis by (simp add: stringPack_visited)
  next
    case False
    let ?pack = "\<lambda>tbl. stringPack F h tbl True (insert data visited)"
    from "1.prems"(2) False have "lastError F h ?pack (h data) None = Some err"
      by (simp add: stringPack_Inl_iff)
    then obtain e where e: "e \<in> set (h data)" "entryError F h ?pack e = Some err"
      by (auto dest: lastError_Some)
    obtain key "value" where kv: "e = (key, value)" by (cases e)
    have plain: "plainEntry e"
      using "1.prems"(1) e(1) by (auto simp: list_all_iff)
    with e(2) kv obtain tbl k err' where t: "value = LTable tbl" "\<not> placeholder h tbl"
        "?pack tbl = Inl err'" "err = PackingTableValue k err'"
      using plain_entryError [of key "value" F h ?pack err] by auto
    have "validKey key"
      using plain kv by (simp add: plainEntry_def)
    then have edge: "(data, tbl) \<in> descends h"
      using e(1) kv t(1,2) by (auto simp: descends_def)
    have "\<forall>a. (tbl, a) \<in> (descends h)\<^sup>* \<longrightarrow> list_all plainEntry (h a)"
      using "1.prems"(1) edge by (meson converse_rtrancl_into_rtrancl)
    from "1.IH" [OF False e(1) this t(3)] t(4) show ?thesis by simp
  qed
qed

text \<open>
  Claim C3, as amended. \<open>stringPack\<close> of marshal.go is a total function: \<open>MarshalWrite\<close>
  returns on every table of every finite heap. If the descent from the root reaches a
  table that contains itself (the root itself, when \<open>c\<close> is the root), directly or
  through nested tables, each held under a string or number key and none of them an
  object table, then \<open>stringPack\<close> fails and \<open>MarshalWrite\<close> returns its error. That
  error ends in "circular reference detected in table" when every table of the descent
  holds plain entries only.
\<close>

theorem cyclic_table_fails:
  assumes "(root, c) \<in> (descends h)\<^sup>*" and "(c, c) \<in> (descends h)\<^sup>+"
  shows "\<exists>err. stringPack F h root False {} = Inl err \<and>
           fst (MarshalWrite Z F h out root) = Some (PackError err) \<and>
           ((\<forall>a. (root, a) \<in> (descends h)\<^sup>* \<longrightarrow> list_all plainEntry (h a)) \<longrightarrow>
              cause err = CircularReference)"
proof -
  from reach_cycle_fails [OF assms, of F False "{}"]
  obtain err where err: "stringPack F h root False {} = Inl err" by auto
  have "fst (MarshalWrite Z F h out root) = Some (PackError err)"
    using MarshalWrite_error [OF err, of Z out] by simp
  moreover have "cause err = CircularReference"
    if "\<forall>a. (root, a) \<in> (descends h)\<^sup>* \<longrightarrow> list_all plainEntry (h a)"
    using plain_cause [OF that err] .
  ultimately show ?thesis
    using err by blast
qed

text \<open>
  The theorem at the table of the test "circular reference": the table holds itself
  under \<open>self\<close>, all its entries are plain, and packing it fails with the wrapped
  circular-reference error.
\<close>

theorem cyclic_table_fails_witness:
  \<open>(T0, T0) \<in> (descends self_ref)\<^sup>+ \<and>
   stringPack plain_fmt self_ref T0 False {}
     = Inl (PackingTableValue ''["self"]'' CircularReference) \<and>
   fst (MarshalWrite store_flate plain_fmt self_ref [] T0)
     = Some (PackError (PackingTableValue ''["self"]'' CircularReference)) \<and>
   cause (PackingTableValue ''["self"]'' CircularReference) = CircularReference\<close>
proof -
  have "(T0, T0) \<in> descends self_ref"
    by (auto simp: descends_def self_ref_def validKey_def placeholder_def RawGetString_def)
  then have cyc: "(T0, T0) \<in> (descends self_ref)\<^sup>+"
    by (rule r_into_trancl)
  have plain: "\<forall>a. (T0, a) \<in> (descends self_ref)\<^sup>* \<longrightarrow> list_all plainEntry (self_ref a)"
    by (simp add: self_ref_def plainEntry_def validKey_def)
  have run: \<open>stringPack plain_fmt self_ref T0 False {}
      = Inl (PackingTableValue ''["self"]'' CircularReference)\<close>
    by (simp add: stringPack.simps self_ref_def plain_fmt_def RawGetString_def)
  from cyclic_table_fails [OF rtrancl.rtrancl_refl cyc, of plain_fmt store_flate "[]"] plain run cyc
  show ?thesis
    by auto
qed

text \<open>
  The claim as it stands fails where the cycle passes through an object table: the root
  of \<open>through_object\<close> holds a table that holds the root, and packing the root succeeds,
  because the callback writes an object table as a string and never looks into it.
\<close>

theorem cycle_through_object_counterexample:
  \<open>(LString ''a'', LTable T1) \<in> set (through_object T0) \<and>
   (LString ''back'', LTable T0) \<in> set (through_object T1) \<and>
   stringPack plain_fmt through_object T0 False {} = Inr ''return {["a"]="MANUAL_REPLACE",}''\<close>
  by (simp add: stringPack.simps through_object_def plain_fmt_def RawGetString_def)

text \<open>
  The \<open>stringPack\<close> of the \<open>Writer\<close> keeps no visited set. On the table of the test
  "circular reference" no nesting depth is enough for it to return.
\<close>

lemma stringPackW_self_ref_never_returns:
  "stringPackW depth plain_fmt self_ref T0 recursive = None"
proof (induction depth arbitrary: recursive)
  case 0
  then show ?case by simp
next
  case (Suc depth)
  then show ?case
    by (simp add: self_ref_def plain_fmt_def RawGetString_def)
qed

lemma Writer_Write_self_ref_never_returns:
  "Writer_Write depth Z plain_fmt self_ref iw T0 = None"
  by (simp add: Writer_Write_def stringPackW_self_ref_never_returns)

section \<open>Which error is returned\<close>

text \<open>
  Claim C4 asks for the first error and for the traversal to stop there. The table of
  \<open>two_errors\<close> has two failing entries: \<open>ForEach\<close> yields \<open>foo\<close>, whose value is a
  function, and then the boolean key. The callback of marshal.go fails at \<open>foo\<close> with
  "unsupported value type", is called again for the boolean key and overwrites
  \<open>gerr\<close>: \<open>stringPack\<close> and \<open>Marshal\<close> return "invalid key type", the last error.
  The \<open>stringPack\<close> of the \<open>Writer\<close> returns the first one on the same table.
\<close>

theorem stringPack_two_errors:
  \<open>entryError plain_fmt two_errors (\<lambda>tbl. stringPack plain_fmt two_errors tbl True {T0})
      (LString ''foo'', LFunction 0) = Some (UnsupportedValueType LTFunction ''["foo"]'') \<and>
   stringPack plain_fmt two_errors T0 False {} = Inl InvalidKeyType \<and>
   snd (Marshal store_flate plain_fmt two_errors T0) = Some (PackError InvalidKeyType) \<and>
   stringPackW 1 plain_fmt two_errors T0 False
     = Some (Inl (UnsupportedValueType LTFunction ''["foo"]''))\<close>
  by (simp add: stringPack.simps entryError_def Marshal_def MarshalWrite_def store_flate_def
      two_errors_def plain_fmt_def RawGetString_def)

section \<open>How numbers are written\<close>


lemma signBit_negZero: "signBit negZero"
  by (simp add: signBit_def negZero_def)

lemma exponentBits_negZero: "exponentBits negZero = 0"
  by (simp add: exponentBits_def negZero_def)

lemma fractionBits_negZero: "fractionBits negZero = 0"
  by (simp add: fractionBits_def negZero_def)

lemma isFinite64_zero: "isFinite64 posZero" "isFinite64 negZero"
  by (simp_all add: isFinite64_def exponentBits_negZero) (simp add: exponentBits_def posZero_def)

lemma float64Value_zero: "float64Value posZero = 0" "float64Value negZero = 0"
  by (simp_all add: float64Value_def exponentBits_negZero fractionBits_negZero)
     (simp add: exponentBits_def fractionBits_def posZero_def)


lemma decimalValue_minus_0: "decimalValue ''-0'' = Some 0"
  by (simp add: decimalValue_def negativeText_def isDigit_def exponentValue_def digitsValue_def)


lemma decimalValue_exponent: "decimalValue ''-1.25e2'' = Some (- 125)"
  by (simp add: decimalValue_def negativeText_def isDigit_def exponentValue_def digitsValue_def
      Digits_def)



lemma parsesBackTo_minus_0: "parsesBackTo ''-0'' negZero"
  by (simp add: parsesBackTo_def decimalValue_minus_0 isFinite64_zero float64Value_zero
      signBit_negZero negativeText_def)








section \<open>Object tables are written as a string\<close>

lemma Type_asString: "Type (asString p value) = LTFunction \<longleftrightarrow> Type value = LTFunction"
  by (simp add: asString_def)

lemma placeholder_replaceObject: "placeholder (replaceObject h p) tbl \<longleftrightarrow> placeholder h tbl"
  by (simp add: placeholder_def replaceObject_def RawGetString_def map_of_map Type_asString
      split: option.splits)

text \<open>
  At an object table the callback appends the literal and never calls \<open>pack\<close>: the
  result is the same for every \<open>pack\<close>.
\<close>

lemma packEntry_object:
  assumes "placeholder h p"
  shows \<open>packEntry F h pack (key, LTable p) (gerr, b) =
     (case keyLiteral F key of
        None \<Rightarrow> (Some InvalidKeyType, b)
      | Some k \<Rightarrow> (gerr, b @ k @ ''="MANUAL_REPLACE",''))\<close>
  using assms by (simp add: placeholder_def split: option.splits)

text \<open>
  When \<open>%q\<close> writes the string \<open>MANUAL_REPLACE\<close> between two quotes, the encoding of
  a heap is the encoding of the heap in which that string stands wherever the object
  table \<open>p\<close> stood.
\<close>

lemma packEntry_replaceObject:
  assumes obj: "placeholder h p"
    and q: \<open>Sprintf_q F ''MANUAL_REPLACE'' = ''"MANUAL_REPLACE"''\<close>
    and same: "\<And>tbl. pack' tbl = pack tbl"
  shows "packEntry F (replaceObject h p) pack' (key, asString p value) s =
         packEntry F h pack (key, value) s"
proof (cases s)
  case (Pair gerr b)
  show ?thesis
  proof (cases "value = LTable p")
    case True
    then show ?thesis
      using obj q Pair
      by (simp add: asString_def placeholder_def split: option.splits)
  next
    case False
    then have "asString p value = value" by (simp add: asString_def)
    then show ?thesis
      using Pair same placeholder_replaceObject [of h p]
      by (cases "value") (simp_all add: placeholder_def split: option.splits)
  qed
qed

lemma stringPack_replaceObject:
  assumes obj: "placeholder h p"
    and q: \<open>Sprintf_q F ''MANUAL_REPLACE'' = ''"MANUAL_REPLACE"''\<close>
  shows "stringPack F (replaceObject h p) data r V = stringPack F h data r V"
  using assms
proof (induction F h data r V rule: stringPack.induct)
  case (1 F h data recursive visited)
  show ?case
  proof (cases "data \<in> visited")
    case True
    then show ?thesis by (simp add: stringPack_visited)
  next
    case False
    let ?h' = "replaceObject h p"
    let ?pack' = "\<lambda>tbl. stringPack F ?h' tbl True (insert data visited)"
    let ?pack = "\<lambda>tbl. stringPack F h tbl True (insert data visited)"
    have same: "?pack' tbl = ?pack tbl" if "x \<in> set (h data)" for tbl x
      using "1.IH" [OF False that "1.prems"] .
    have "fold (packEntry F ?h' ?pack') (?h' data) s = fold (packEntry F h ?pack) (h data) s" for s
    proof (cases "h data")
      case Nil
      then show ?thesis by (simp add: replaceObject_def)
    next
      case (Cons x xs)
      then have x: "x \<in> set (h data)" by simp
      have eq: "?pack' tbl = ?pack tbl" for tbl using same [OF x] .
      have "fold (packEntry F ?h' ?pack') (map (\<lambda>(key, value). (key, asString p value)) es) s
          = fold (packEntry F h ?pack) es s" for es s
      proof (induction es arbitrary: s)
        case Nil
        then show ?case by simp
      next
        case (Cons e es)
        obtain key "value" where e: "e = (key, value)" by (cases e)
        show ?case
          using Cons.IH packEntry_replaceObject [OF "1.prems" eq, where key = key and s = s] e
          by simp
      qed
      then show ?thesis by (simp add: replaceObject_def)
    qed
    then show ?thesis
      using False by (simp add: stringPack_unfold)
  qed
qed







section \<open>How decoding fails\<close>

text \<open>
  Claim C8, as amended. When the interpreter runs the chunk and the global \<open>zw_data\<close>
  then holds something that is not a table, \<open>UnmarshalRead\<close> and \<open>Reader.Read\<close> fail
  with "unable to typecast as lua.LTable". When the interpreter answers the chunk with
  an error, they fail with that error as it is: any position in it is the
  interpreter's, the decoder adds none.
\<close>

theorem decode_failures:
  assumes "ReadAll L inp = Inr content"
  shows "(\<forall>l. DoString L (''zw_data = ('' @ TrimPrefix content ''return '' @ '')'') = Inr l \<longrightarrow>
            Type (GetGlobal L l ''zw_data'') \<noteq> LTTable \<longrightarrow>
            UnmarshalRead L inp out = (Some NotATable, out) \<and>
            Reader_Read L inp = Inl NotATable) \<and>
         (\<forall>err. DoString L (''zw_data = ('' @ TrimPrefix content ''return '' @ '')'') = Inl err \<longrightarrow>
            UnmarshalRead L inp out = (Some (LuaError err), out) \<and>
            Reader_Read L inp = Inl (LuaError err))"
  using assms
  by (auto simp: UnmarshalRead_def Reader_Read_def split: LValue.splits)

text \<open>
  The theorem at the two failing inputs of \<open>TestUnmarshal\<close>: \<open>return "foo"\<close> is not a
  table, and \<open>@\<close> is an error of the interpreter.
\<close>

theorem decode_failures_witness:
  \<open>UnmarshalRead tests_lua ''return "foo"'' [] = (Some NotATable, []) \<and>
   Reader_Read tests_lua ''return "foo"'' = Inl NotATable \<and>
   UnmarshalRead tests_lua ''@'' [] = (Some (LuaError ()), []) \<and>
   Reader_Read tests_lua ''@'' = Inl (LuaError ())\<close>
proof -
  have read: "ReadAll tests_lua inp = Inr inp" for inp
    by (simp add: tests_lua_def)
  have foo: \<open>DoString tests_lua (''zw_data = ('' @ TrimPrefix ''return "foo"'' ''return '' @ '')'')
      = Inr (LString ''foo'', \<lambda>a. [])\<close>
    by (simp add: tests_lua_def TrimPrefix_def)
  have not_table: \<open>Type (GetGlobal tests_lua (LString ''foo'', \<lambda>a. []) ''zw_data'') \<noteq> LTTable\<close>
    by (simp add: tests_lua_def)
  have at: \<open>DoString tests_lua (''zw_data = ('' @ TrimPrefix ''@'' ''return '' @ '')'') = Inl ()\<close>
    by (simp add: tests_lua_def TrimPrefix_def)
  from decode_failures [OF read, of _ "[]"] foo not_table at
  show ?thesis
    by blast
qed

text \<open>
  The claim as it stands fails on a text that violates the grammar and that the
  interpreter reads: the input of the test "boolean value" of \<open>TestReader_Read\<close> is
  decoded, not refused.
\<close>

theorem invalid_text_decoded_counterexample:
  \<open>\<not> in_grammar ''return {['flag']=true,}'' \<and>
   Unmarshal tests_lua ''return {['flag']=true,}'' [] = (None, [(LString ''flag'', LBool True)]) \<and>
   Reader_Read tests_lua ''return {['flag']=true,}'' = Inr [(LString ''flag'', LBool True)]\<close>
proof -
  have \<open>\<not> in_grammar ''return {['flag']=true,}''\<close>
    by (rule not_in_grammar [of _ "CHR 0x27"])
       (simp_all add: keyStart_def isSpace_def isDigit_def)
  then show ?thesis
    by (simp add: Reader_Read_def Unmarshal_def UnmarshalRead_def tests_lua_def TrimPrefix_def)
qed

section \<open>Decoding leaves the caller's table alone unless it succeeds\<close>

text \<open>
  Claim C9. Whatever the reader delivers and whatever the caller's table holds before
  the call: when \<open>UnmarshalRead\<close> returns an error, the caller's table is what it was;
  when it returns no error, the input inflated to some text, the interpreter ran the
  chunk built from it, the global \<open>zw_data\<close> was a table, and the caller's table now is
  that table. \<open>Unmarshal\<close> returns the same error and leaves the same table.
\<close>

theorem UnmarshalRead_atomic:
  assumes "UnmarshalRead L inp out = (err, out')"
  shows "(err \<noteq> None \<longrightarrow> out' = out) \<and>
         (err = None \<longrightarrow>
            (\<exists>content l zwData.
               ReadAll L inp = Inr content \<and>
               DoString L (''zw_data = ('' @ TrimPrefix content ''return '' @ '')'') = Inr l \<and>
               GetGlobal L l ''zw_data'' = LTable zwData \<and>
               out' = Deref L l zwData)) \<and>
         Unmarshal L inp out = (err, out')"
  using assms
  by (auto simp: UnmarshalRead_def Unmarshal_def split: sum.splits LValue.splits)

text \<open>
  The theorem at two inputs of the package's tests: \<open>@\<close> is refused and the table the
  caller passed is still there, \<open>return {}\<close> is accepted and the caller's table is
  replaced by the decoded (empty) one.
\<close>

theorem UnmarshalRead_atomic_witness:
  "Unmarshal tests_lua ''@'' [(LString ''kept'', LBool True)]
     = (Some (LuaError ()), [(LString ''kept'', LBool True)]) \<and>
   Unmarshal tests_lua ''return {}'' [(LString ''kept'', LBool True)] = (None, [])"
proof -
  have refused: "UnmarshalRead tests_lua ''@'' [(LString ''kept'', LBool True)]
      = (Some (LuaError ()), [(LString ''kept'', LBool True)])"
    by (simp add: UnmarshalRead_def tests_lua_def TrimPrefix_def)
  have accepted: "UnmarshalRead tests_lua ''return {}'' [(LString ''kept'', LBool True)]
      = (None, [])"
    by (simp add: UnmarshalRead_def tests_lua_def TrimPrefix_def)
  from UnmarshalRead_atomic [OF refused] UnmarshalRead_atomic [OF accepted]
  show ?thesis
    by blast
qed

section \<open>A root table with a function under \<open>is\<close>\<close>

lemma is_entry_error:
  "entryError F h pack (LString ''is'', LFunction f) =
     Some (UnsupportedValueType LTFunction (''['' @ Sprintf_q F ''is'' @ '']''))"
  by (simp add: entryError_def)

text \<open>
  Claim C10, as amended. The root is packed whether or not it is an object table: if it
  holds a function under \<open>is\<close>, the callback meets that entry, so \<open>stringPack\<close> fails and
  \<open>MarshalWrite\<close> returns an error instead of writing the placeholder. The error is
  "unsupported value type" for the key \<open>is\<close> when no other entry of the root fails.
\<close>

theorem root_with_is_fails:
  assumes "(LString ''is'', LFunction f) \<in> set (h root)"
  shows "\<exists>err. stringPack F h root False {} = Inl err \<and>
           fst (MarshalWrite Z F h out root) = Some (PackError err) \<and>
           ((\<forall>e \<in> set (h root). e \<noteq> (LString ''is'', LFunction f) \<longrightarrow>
                entryError F h (\<lambda>tbl. stringPack F h tbl True {root}) e = None) \<longrightarrow>
            err = UnsupportedValueType LTFunction (''['' @ Sprintf_q F ''is'' @ '']''))"
proof -
  let ?pack = "\<lambda>tbl. stringPack F h tbl True {root}"
  have "lastError F h ?pack (h root) None \<noteq> None"
    using lastError_fails [OF assms, of F h ?pack None] by (simp add: is_entry_error)
  then obtain err where err: "stringPack F h root False {} = Inl err"
    by (auto simp: stringPack_Inl_iff)
  have "fst (MarshalWrite Z F h out root) = Some (PackError err)"
    using MarshalWrite_error [OF err, of Z out] by simp
  moreover have "err = UnsupportedValueType LTFunction (''['' @ Sprintf_q F ''is'' @ '']'')"
    if "\<forall>e \<in> set (h root). e \<noteq> (LString ''is'', LFunction f) \<longrightarrow> entryError F h ?pack e = None"
    using lastError_only [OF assms is_entry_error that] err
    by (simp add: stringPack_Inl_iff)
  ultimately show ?thesis
    using err by blast
qed

text \<open>
  The theorem at \<open>is_root\<close>, whose other entry is a string: \<open>MarshalWrite\<close> returns
  "unsupported value type" for the key \<open>is\<close>.
\<close>

theorem root_with_is_fails_witness:
  \<open>(LString ''is'', LFunction 0) \<in> set (is_root T0) \<and>
   fst (MarshalWrite store_flate plain_fmt is_root [] T0)
     = Some (PackError (UnsupportedValueType LTFunction ''["is"]''))\<close>
proof -
  have holds: "(LString ''is'', LFunction 0) \<in> set (is_root T0)"
    by (simp add: is_root_def)
  have others: "\<forall>e \<in> set (is_root T0). e \<noteq> (LString ''is'', LFunction 0) \<longrightarrow>
      entryError plain_fmt is_root (\<lambda>tbl. stringPack plain_fmt is_root tbl True {T0}) e = None"
    by (simp add: is_root_def entryError_def)
  from root_with_is_fails [where h = is_root and root = T0 and F = plain_fmt
      and Z = store_flate and out = "[]", OF holds] others
  have \<open>fst (MarshalWrite store_flate plain_fmt is_root [] T0)
      = Some (PackError (UnsupportedValueType LTFunction
          (''['' @ Sprintf_q plain_fmt ''is'' @ '']'')))\<close>
    by auto
  with holds show ?thesis
    by (simp add: plain_fmt_def)
qed

text \<open>
  The claim as it stands fails when another entry of the root fails too. The root of
  \<open>is_root_between\<close> holds a function under \<open>is\<close>, and before and after it a table with
  a boolean key: the error returned is the one of packing that table.
\<close>

theorem root_with_is_counterexample:
  \<open>(LString ''is'', LFunction 0) \<in> set (is_root_between T0) \<and>
   stringPack plain_fmt is_root_between T0 False {}
     = Inl (PackingTableValue ''["b"]'' InvalidKeyType)\<close>
  by (simp add: stringPack.simps is_root_between_def plain_fmt_def RawGetString_def)

end
